theory Spec2Isabelle
  imports Complex_Main "HOL-Library.Log_Nat"
begin

section \<open>Strings\<close>

text \<open>
  The strings handled by \<^verbatim>\<open>src/engine/util/http.ts\<close> are HTTP header values. Node decodes
  header bytes as Latin-1, so every code unit is below 256 and a header value is a list of
  \<^typ>\<open>char\<close>. The three string methods used by the source are written out for that
  alphabet.
\<close>

text \<open>
  White space as \<^verbatim>\<open>String.prototype.trim\<close> and the regular expression class
  \<^verbatim>\<open>\s\<close> see it, restricted to Latin-1: TAB, LF, VT, FF, CR, SPACE and NBSP.
\<close>

definition is_white_space :: "char \<Rightarrow> bool" where
  "is_white_space c \<longleftrightarrow>
     c \<in> set [CHR 0x09, CHR 0x0A, CHR 0x0B, CHR 0x0C, CHR 0x0D, CHR '' '', CHR 0xA0]"

definition trim :: "string \<Rightarrow> string" where
  "trim s = rev (dropWhile is_white_space (rev (dropWhile is_white_space s)))"

text \<open>
  \<^verbatim>\<open>toLowerCase\<close> on Latin-1: \<^verbatim>\<open>A-Z\<close> and the accented capitals
  \<^verbatim>\<open>U+00C0-U+00DE\<close> (the multiplication sign \<^verbatim>\<open>U+00D7\<close> apart) move up by 32.
\<close>

definition lower_char :: "char \<Rightarrow> char" where
  "lower_char c =
     (let n = (of_char c :: nat)
      in if (65 \<le> n \<and> n \<le> 90) \<or> (192 \<le> n \<and> n \<le> 222 \<and> n \<noteq> 215)
         then char_of (n + 32) else c)"

definition toLowerCase :: "string \<Rightarrow> string" where
  "toLowerCase s = map lower_char s"

definition startsWith :: "string \<Rightarrow> string \<Rightarrow> bool" where
  "startsWith s t \<longleftrightarrow> take (length t) s = t"

section \<open>The mime classifier\<close>

text \<open>\<^verbatim>\<open>const allowedTypes = ['image/', 'audio/', 'video/'];\<close>\<close>

definition allowedTypes :: "string list" where
  "allowedTypes = [''image/'', ''audio/'', ''video/'']"

text \<open>
  \<^verbatim>\<open>getMediaMimeExtension(type)\<close>. The argument is \<^verbatim>\<open>headers['content-type']\<close>, which
  is \<^verbatim>\<open>undefined\<close> (here \<open>None\<close>) when the header is absent. The result is a string or
  \<^verbatim>\<open>false\<close> (here \<open>None\<close>). The call \<^verbatim>\<open>mime.extension(type)\<close> goes to the package
  mime-types; it is the parameter \<open>ext_of\<close>, with \<open>None\<close> for its \<^verbatim>\<open>false\<close>.
\<close>

definition getMediaMimeExtension ::
  "(string \<Rightarrow> string option) \<Rightarrow> string option \<Rightarrow> string option" where
  "getMediaMimeExtension ext_of type =
     (case type of
        None \<Rightarrow> None
      | Some ty \<Rightarrow>
          if ty = [] then None
          else if list_ex (\<lambda>t. startsWith (toLowerCase (trim ty)) t) allowedTypes
          then (let e = ext_of ty in if e = Some ''jpeg'' then Some ''jpg'' else e)
          else None)"

subsection \<open>The package function \<^verbatim>\<open>mime.extension\<close>\<close>

text \<open>
  Modelled from the spec: the function \<^verbatim>\<open>extension\<close> of the third-party package
  mime-types and its MIME-to-extension table are not under \<^verbatim>\<open>src/\<close>. The spec (4.1)
  describes the function as the map from a MIME type to the default extension of a standard
  MIME-to-extension table, \<^verbatim>\<open>Rejected\<close> when the table knows no extension. The table is
  the parameter \<open>extensions\<close> (a type's extensions, the default one first). The package reads
  the media type off its argument with the regular expression
  \<^verbatim>\<open>/^\s*([^;\s]*)(?:;|\s|$)/\<close>: leading white space is skipped and the type runs up to the
  first semicolon or white space. It is put in lower case for the lookup.
\<close>

definition media_type_of :: "string \<Rightarrow> string" where
  "media_type_of s =
     takeWhile (\<lambda>c. c \<noteq> CHR '';'' \<and> \<not> is_white_space c) (dropWhile is_white_space s)"

definition mime_extension :: "(string \<Rightarrow> string list option) \<Rightarrow> string \<Rightarrow> string option" where
  "mime_extension extensions type =
     (if type = [] then None
      else case extensions (toLowerCase (media_type_of type)) of
             None \<Rightarrow> None
           | Some [] \<Rightarrow> None
           | Some (e # _) \<Rightarrow> Some e)"

text \<open>
  Three entries of the table of the package mime-types (its data come from mime-db), which
  is not under \<^verbatim>\<open>src/\<close>: a type with its extensions, the default one first.
\<close>

definition sample_extensions :: "string \<Rightarrow> string list option" where
  "sample_extensions =
     [''image/jpeg'' \<mapsto> [''jpeg'', ''jpg'', ''jpe''],
      ''audio/mpeg'' \<mapsto> [''mpga'', ''mp2'', ''mp2a'', ''mp3'', ''m2a'', ''m3a''],
      ''image/png'' \<mapsto> [''png'']]"

section \<open>The streaming download\<close>

subsection \<open>Numbers, the progress object, outcomes\<close>

text \<open>
  The value of \<^verbatim>\<open>prog.percent\<close> is a JavaScript number, an IEEE double. A finite double
  is written as the rational it denotes; \<^verbatim>\<open>Infinity\<close> and \<^verbatim>\<open>NaN\<close> stand beside them.
\<close>

datatype jsnum = Num rat | Infinity | NaN

text \<open>
  Rounding to the nearest double. \<open>expo x\<close> is the binary exponent of a positive \<open>x\<close>, the
  \<open>e\<close> with \<open>2 ^ e \<le> x < 2 ^ (e + 1)\<close>, found from the bit lengths of numerator and
  denominator. A double has 53 significant bits, so the doubles next to \<open>x\<close> are the
  multiples of \<open>2 ^ (e - 52)\<close>, and \<open>x\<close> goes to the nearest one, to the even one of two
  (\<open>rne\<close>). The exponent range of doubles is not bounded here: with byte counts below
  \<open>2 ^ 53\<close> no quotient leaves it.
\<close>

definition expo :: "rat \<Rightarrow> int" where
  "expo x =
     (let (p, q) = quotient_of x;
          s = int (floorlog 2 (nat p)) - int (floorlog 2 (nat q))
      in if 2 powi s \<le> x then s else s - 1)"

definition rne :: "rat \<Rightarrow> int" where
  "rne y =
     (let f = \<lfloor>y\<rfloor>; r = y - of_int f
      in if r < 1 / 2 then f else if 1 / 2 < r then f + 1 else if even f then f else f + 1)"

definition double_pos :: "rat \<Rightarrow> rat" where
  "double_pos x = of_int (rne (x / 2 powi (expo x - 52))) * 2 powi (expo x - 52)"

definition double_of :: "rat \<Rightarrow> rat" where
  "double_of x = (if x = 0 then 0 else if x < 0 then - double_pos (- x) else double_pos x)"

text \<open>
  \<^verbatim>\<open>downloaded/totalLength\<close>, line 87: the division of two doubles gives the double
  nearest to the exact quotient. The two operands are byte counts, exact as doubles below
  \<open>2 ^ 53\<close>.
\<close>

definition js_div :: "nat \<Rightarrow> nat \<Rightarrow> jsnum" where
  "js_div a b =
     (if b = 0 then (if a = 0 then NaN else Infinity)
      else Num (double_of (of_nat a / of_nat b)))"

text \<open>
  \<^verbatim>\<open>parseFloat(x.toFixed(2))\<close>: \<^verbatim>\<open>toFixed\<close> works on the exact value of the double
  \<open>x\<close> and picks the integer \<open>n\<close> with \<open>n / 100\<close> nearest to it, the larger one of two; a
  negative \<open>x\<close> is rounded as \<open>- x\<close> and the sign put back. \<^verbatim>\<open>parseFloat\<close> reads the
  decimal back as the double nearest to it.
\<close>

definition round2 :: "rat \<Rightarrow> rat" where
  "round2 x = of_int \<lfloor>x * 100 + 1 / 2\<rfloor> / 100"

fun toFixed2 :: "jsnum \<Rightarrow> jsnum" where
  "toFixed2 (Num x) = Num (double_of (if x < 0 then - round2 (- x) else round2 x))"
| "toFixed2 Infinity = Infinity"
| "toFixed2 NaN = NaN"

text \<open>The comparison \<^verbatim>\<open><=\<close> of JavaScript numbers: false whenever \<^verbatim>\<open>NaN\<close> is involved.\<close>

fun js_le :: "jsnum \<Rightarrow> jsnum \<Rightarrow> bool" where
  "js_le (Num a) (Num b) = (a \<le> b)"
| "js_le (Num a) Infinity = True"
| "js_le Infinity Infinity = True"
| "js_le _ _ = False"

text \<open>
  Modelled from the spec: the type \<^verbatim>\<open>DownloadProgress\<close> is declared in
  \<^verbatim>\<open>core/state\<close>, not under \<^verbatim>\<open>src/\<close>. The spec (3) gives its three fields.
\<close>

record DownloadProgress =
  shouldStop :: bool
  knowsPercent :: bool
  percent :: jsnum

text \<open>
  What the promise returned by \<^verbatim>\<open>downloadMedia\<close> settles to. A rejection carries the
  plain \<^verbatim>\<open>Error\<close> thrown for a non-media type, the \<^verbatim>\<open>GracefulStopError\<close> of a
  cancelled transfer, the error a writer raises when it is written to after its end
  (\<^verbatim>\<open>ERR_STREAM_WRITE_AFTER_END\<close>), or a cause raised by the request, by
  \<^verbatim>\<open>mkParents\<close> or by the writer, handed on as it is.
\<close>

datatype 'e rejection = Error string | GracefulStopError string | WriteAfterEnd | Cause 'e

datatype 'e settled = Resolved string | Rejected "'e rejection"

text \<open>
  The two response headers the function reads. A \<^verbatim>\<open>content-length\<close> that is present is
  a non-empty string of digits (the HTTP parser refuses anything else), hence truthy; the
  field holds the number it denotes.
\<close>

record headers =
  content_type :: "string option"
  content_length :: "nat option"

subsection \<open>The state of one transfer\<close>

text \<open>
  The variables of \<^verbatim>\<open>downloadMedia\<close> that live on in its callbacks, with the files on
  disk (a map from path to content). \<open>writer_open\<close> says whether the write stream still
  takes writes; \<open>close_calls\<close> and \<open>cancel_calls\<close> count the calls of
  \<^verbatim>\<open>writer.close()\<close> and \<^verbatim>\<open>cancel()\<close>; \<open>promise\<close> is \<open>None\<close> while the returned
  promise is pending.
\<close>

record 'e transfer =
  prog :: DownloadProgress
  disk :: "string \<Rightarrow> string option"
  ext :: string
  totalLength :: "nat option"
  writer_path :: string
  downloaded :: nat
  writer_open :: bool
  close_calls :: nat
  cancel_calls :: nat
  promise :: "'e settled option"

text \<open>
  Lines 59 to 76. \<open>request\<close> is what \<^verbatim>\<open>await axios(...)\<close> gives: a rejection cause or the
  response headers. \<open>mkParents\<close> is what \<^verbatim>\<open>await mkParents(filePath)\<close> gives: \<open>None\<close>
  when the parent directories exist afterwards, or the cause of its failure
  (\<^verbatim>\<open>mkParents\<close> is in \<^verbatim>\<open>core/paths\<close>, not under \<^verbatim>\<open>src/\<close>). The test \<^verbatim>\<open>!ext\<close> also
  holds for the empty string. \<^verbatim>\<open>fs.createWriteStream\<close> opens its file with the flag
  \<^verbatim>\<open>w\<close>: the file is created, or truncated if it exists.
\<close>

definition downloadMedia_start ::
  "(string \<Rightarrow> string option) \<Rightarrow> 'e + headers \<Rightarrow> 'e option \<Rightarrow> string \<Rightarrow>
   DownloadProgress \<Rightarrow> (string \<Rightarrow> string option) \<Rightarrow>
   ('e rejection \<times> (string \<Rightarrow> string option)) + 'e transfer" where
  "downloadMedia_start ext_of request mkParents filePath p files =
     (case request of
        Inl cause \<Rightarrow> Inl (Cause cause, files)
      | Inr hs \<Rightarrow>
          (case getMediaMimeExtension ext_of (content_type hs) of
             None \<Rightarrow> Inl (Error ''Attempted to download non-media mimetype.'', files)
           | Some x \<Rightarrow>
               if x = [] then Inl (Error ''Attempted to download non-media mimetype.'', files)
               else
                 (case mkParents of
                    Some cause \<Rightarrow> Inl (Cause cause, files)
                  | None \<Rightarrow>
                      Inr \<lparr>prog = p,
                          disk = files(filePath @ ''.'' @ x \<mapsto> []),
                          ext = x,
                          totalLength = content_length hs,
                          writer_path = filePath @ ''.'' @ x,
                          downloaded = 0,
                          writer_open = True,
                          close_calls = 0,
                          cancel_calls = 0,
                          promise = None\<rparr>)))"

subsection \<open>The callbacks\<close>

text \<open>The listener of lines 78 to 91, run for every chunk the response stream emits.\<close>

definition on_data :: "string \<Rightarrow> 'e transfer \<Rightarrow> 'e transfer" where
  "on_data chunk s =
     (if shouldStop (prog s)
      then s\<lparr>writer_open := False, close_calls := close_calls s + 1,
             cancel_calls := cancel_calls s + 1\<rparr>
      else
        (case totalLength s of
           Some n \<Rightarrow>
             s\<lparr>downloaded := downloaded s + length chunk,
               prog := (prog s)\<lparr>knowsPercent := True,
                 percent := toFixed2 (js_div (downloaded s + length chunk) n)\<rparr>\<rparr>
         | None \<Rightarrow> s\<lparr>prog := (prog s)\<lparr>knowsPercent := False\<rparr>\<rparr>))"

text \<open>A promise settles once: \<^verbatim>\<open>resolve\<close> and \<^verbatim>\<open>reject\<close> do nothing afterwards.\<close>

definition settle :: "'e settled \<Rightarrow> 'e transfer \<Rightarrow> 'e transfer" where
  "settle r s = (case promise s of None \<Rightarrow> s\<lparr>promise := Some r\<rparr> | Some _ \<Rightarrow> s)"

text \<open>Lines 95 to 98, the writer's \<^verbatim>\<open>close\<close> listener.\<close>

definition on_close :: "'e transfer \<Rightarrow> 'e transfer" where
  "on_close s =
     (if shouldStop (prog s)
      then settle (Rejected (GracefulStopError ''Interrupted http download.'')) s
      else settle (Resolved (ext s)) s)"

text \<open>Line 99, the writer's \<^verbatim>\<open>error\<close> listener: it rejects with the error it is given.\<close>

definition on_error :: "'e rejection \<Rightarrow> 'e transfer \<Rightarrow> 'e transfer" where
  "on_error err s = settle (Rejected err) s"

text \<open>
  Line 92, \<^verbatim>\<open>data.pipe(writer)\<close>: the pipe's own listener calls
  \<^verbatim>\<open>writer.write(chunk)\<close>. An open writer appends the chunk to its file. A writer that
  \<^verbatim>\<open>writer.close()\<close> has ended writes nothing and raises the write-after-end error, which
  reaches the listener of line 99 before the writer can emit \<^verbatim>\<open>close\<close>. (Once the writer
  has emitted \<^verbatim>\<open>close\<close> or \<^verbatim>\<open>error\<close> the pipe is gone and the promise settled, so
  nothing changes for a chunk that comes then.)
\<close>

definition pipe_write :: "string \<Rightarrow> 'e transfer \<Rightarrow> 'e transfer" where
  "pipe_write chunk s =
     (if writer_open s
      then s\<lparr>disk := (disk s)(writer_path s \<mapsto>
               (case disk s (writer_path s) of None \<Rightarrow> chunk | Some old \<Rightarrow> old @ chunk))\<rparr>
      else on_error WriteAfterEnd s)"

subsection \<open>Events\<close>

text \<open>
  What happens around the callbacks once \<^verbatim>\<open>downloadMedia\<close> has set them up: the response
  stream emits a chunk, the caller raises \<^verbatim>\<open>prog.shouldStop\<close>, the writer emits
  \<^verbatim>\<open>close\<close> or an \<^verbatim>\<open>error\<close> of its own (a failed write, say), the response stream
  emits \<^verbatim>\<open>error\<close>. Listeners run in the order they were registered: for a chunk, the
  listener of line 78 before the pipe's.
  \<^verbatim>\<open>downloadMedia\<close> registers no \<^verbatim>\<open>error\<close> listener on the response stream, and
  \<^verbatim>\<open>pipe\<close> hands no error of the source on to the writer. The caller only ever raises
  the flag. Nothing else is assumed: any list of events may follow a call, in any order.
\<close>

datatype 'e event =
  Data string | StopRequested | WriterClose | WriterError 'e | SourceError 'e

fun step :: "'e event \<Rightarrow> 'e transfer \<Rightarrow> 'e transfer" where
  "step (Data chunk) s = pipe_write chunk (on_data chunk s)"
| "step StopRequested s = s\<lparr>prog := (prog s)\<lparr>shouldStop := True\<rparr>\<rparr>"
| "step WriterClose s = on_close (s\<lparr>writer_open := False\<rparr>)"
| "step (WriterError err) s = on_error (Cause err) (s\<lparr>writer_open := False\<rparr>)"
| "step (SourceError err) s = s"

fun run :: "'e transfer \<Rightarrow> 'e event list \<Rightarrow> 'e transfer" where
  "run s [] = s"
| "run s (e # es) = run (step e s) es"

text \<open>
  One call of \<^verbatim>\<open>downloadMedia\<close> with the events that follow it: the state of the
  promise, the progress object and the files at the end.
\<close>

definition downloadMedia ::
  "(string \<Rightarrow> string option) \<Rightarrow> 'e + headers \<Rightarrow> 'e option \<Rightarrow> string \<Rightarrow>
   DownloadProgress \<Rightarrow> (string \<Rightarrow> string option) \<Rightarrow> 'e event list \<Rightarrow>
   'e settled option \<times> DownloadProgress \<times> (string \<Rightarrow> string option)" where
  "downloadMedia ext_of request mkParents filePath p files es =
     (case downloadMedia_start ext_of request mkParents filePath p files of
        Inl (r, files') \<Rightarrow> (Some (Rejected r), p, files')
      | Inr s \<Rightarrow> (promise (run s es), prog (run s es), disk (run s es)))"

text \<open>The bytes of the chunks in a list of events, and those emitted before the writer closed.\<close>

fun data_of :: "'e event list \<Rightarrow> string" where
  "data_of [] = []"
| "data_of (Data chunk # es) = chunk @ data_of es"
| "data_of (_ # es) = data_of es"

fun before_close :: "'e event list \<Rightarrow> 'e event list" where
  "before_close [] = []"
| "before_close (WriterClose # es) = []"
| "before_close (e # es) = e # before_close es"

text \<open>Whether a number lies in the closed interval from 0 to 1.\<close>

fun in_unit_interval :: "jsnum \<Rightarrow> bool" where
  "in_unit_interval (Num x) = (0 \<le> x \<and> x \<le> 1)"
| "in_unit_interval _ = False"

text \<open>Values for the worked examples.\<close>

definition fresh_progress :: DownloadProgress where
  "fresh_progress = \<lparr>shouldStop = False, knowsPercent = False, percent = Num 0\<rparr>"

definition sample_transfer :: "nat transfer" where
  "sample_transfer =
     \<lparr>prog = fresh_progress, disk = [''/tmp/pic.png'' \<mapsto> []], ext = ''png'',
      totalLength = Some 4, writer_path = ''/tmp/pic.png'', downloaded = 0,
      writer_open = True, close_calls = 0, cancel_calls = 0, promise = None\<rparr>"

definition png_response :: "nat option \<Rightarrow> (nat + headers)" where
  "png_response len = Inr \<lparr>content_type = Some ''image/png'', content_length = len\<rparr>"


section \<open>Properties of the mime classifier\<close>

lemma semicolon_not_white_space: "\<not> is_white_space (CHR '';'')"
  by (simp add: is_white_space_def)

lemma media_type_of_params: "media_type_of (b @ CHR '';'' # ps) = media_type_of b"
  by (simp add: media_type_of_def dropWhile_append3 takeWhile_tail semicolon_not_white_space)

lemma trim_params:
  "trim (b @ CHR '';'' # ps) =
     dropWhile is_white_space b @ CHR '';'' # rev (dropWhile is_white_space (rev ps))"
  by (simp add: trim_def dropWhile_append3 semicolon_not_white_space)

lemma trim_prefix: "\<exists>z. dropWhile is_white_space b = trim b @ z"
proof -
  have "rev (dropWhile is_white_space (rev (dropWhile is_white_space b))) @
        rev (takeWhile is_white_space (rev (dropWhile is_white_space b))) =
        dropWhile is_white_space b"
    by (metis rev_append rev_rev_ident takeWhile_dropWhile_id)
  then show ?thesis unfolding trim_def by metis
qed

lemma startsWith_append: "startsWith s t \<Longrightarrow> startsWith (s @ z) t"
  unfolding startsWith_def
  by (metis append_eq_conv_conj append_take_drop_id append.assoc)

lemma startsWith_params:
  assumes "startsWith (toLowerCase (trim b)) t"
  shows "startsWith (toLowerCase (trim (b @ CHR '';'' # ps))) t"
proof -
  obtain z where z: "dropWhile is_white_space b = trim b @ z"
    using trim_prefix by blast
  have "toLowerCase (trim (b @ CHR '';'' # ps)) =
        toLowerCase (trim b) @
        toLowerCase (z @ CHR '';'' # rev (dropWhile is_white_space (rev ps)))"
    by (simp add: trim_params z toLowerCase_def)
  then show ?thesis
    using assms by (simp add: startsWith_append)
qed

lemma allowed_iff:
  "list_ex (\<lambda>t. startsWith s t) allowedTypes \<longleftrightarrow>
     take 6 s \<in> {''image/'', ''audio/'', ''video/''}"
  by (auto simp add: allowedTypes_def startsWith_def eval_nat_numeral)

lemma classify_unfold:
  "getMediaMimeExtension ext_of (Some ty) =
     (if ty = [] then None
      else if take 6 (toLowerCase (trim ty)) \<in> {''image/'', ''audio/'', ''video/''}
      then (if ext_of ty = Some ''jpeg'' then Some ''jpg'' else ext_of ty)
      else None)"
  by (simp only: getMediaMimeExtension_def allowed_iff option.case Let_def)

lemma rejected_iff_aux:
  "((if emp then None else if ok then (if x = Some j then Some j' else x) else None) = None) =
     (emp \<or> \<not> ok \<or> x = None)"
  by (cases x) auto

lemma accepted_aux:
  "(if emp then None else if ok then (if x = Some j then Some j' else x) else None) \<noteq> None \<Longrightarrow>
     \<exists>e. x = Some e \<and>
       (if emp then None else if ok then (if x = Some j then Some j' else x) else None) =
         Some (if e = j then j' else e)"
  by (cases x) (auto split: if_splits)

text \<open>
  C4. The classifier rejects (returns \<^verbatim>\<open>false\<close>) exactly when the content type is absent
  or empty, or its trimmed lower-case form starts with none of \<^verbatim>\<open>image/\<close>,
  \<^verbatim>\<open>audio/\<close>, \<^verbatim>\<open>video/\<close>, or \<^verbatim>\<open>mime.extension\<close> knows no extension for it. In every
  other case it accepts, with the extension \<^verbatim>\<open>mime.extension\<close> gives (\<^verbatim>\<open>jpg\<close> for
  \<^verbatim>\<open>jpeg\<close>). This holds whatever \<^verbatim>\<open>mime.extension\<close> computes.
\<close>

theorem getMediaMimeExtension_rejected_iff:
  "(getMediaMimeExtension ext_of type = None \<longleftrightarrow>
     (case type of
        None \<Rightarrow> True
      | Some ty \<Rightarrow>
          ty = [] \<or> take 6 (toLowerCase (trim ty)) \<notin> {''image/'', ''audio/'', ''video/''} \<or>
          ext_of ty = None)) \<and>
   (getMediaMimeExtension ext_of type \<noteq> None \<longrightarrow>
     (\<exists>ty e. type = Some ty \<and> ext_of ty = Some e \<and>
        getMediaMimeExtension ext_of type = Some (if e = ''jpeg'' then ''jpg'' else e)))"
proof (cases type)
  case None
  show ?thesis unfolding None by (simp add: getMediaMimeExtension_def)
next
  case (Some ty)
  have a: "getMediaMimeExtension ext_of (Some ty) = None \<longleftrightarrow>
      ty = [] \<or> take 6 (toLowerCase (trim ty)) \<notin> {''image/'', ''audio/'', ''video/''} \<or>
      ext_of ty = None"
    unfolding classify_unfold by (rule rejected_iff_aux)
  have b: "getMediaMimeExtension ext_of (Some ty) \<noteq> None \<longrightarrow>
      (\<exists>ty' e. Some ty = Some ty' \<and> ext_of ty' = Some e \<and>
        getMediaMimeExtension ext_of (Some ty) = Some (if e = ''jpeg'' then ''jpg'' else e))"
  proof
    assume ne: "getMediaMimeExtension ext_of (Some ty) \<noteq> None"
    have "\<exists>e. ext_of ty = Some e \<and>
        getMediaMimeExtension ext_of (Some ty) = Some (if e = ''jpeg'' then ''jpg'' else e)"
      using ne unfolding classify_unfold by (rule accepted_aux)
    then obtain e where e: "ext_of ty = Some e \<and>
        getMediaMimeExtension ext_of (Some ty) = Some (if e = ''jpeg'' then ''jpg'' else e)" ..
    from e have e1: "ext_of ty = Some e" ..
    from e have e2:
      "getMediaMimeExtension ext_of (Some ty) = Some (if e = ''jpeg'' then ''jpg'' else e)" ..
    show "\<exists>ty' e. Some ty = Some ty' \<and> ext_of ty' = Some e \<and>
        getMediaMimeExtension ext_of (Some ty) = Some (if e = ''jpeg'' then ''jpg'' else e)"
      by (rule exI [of _ ty], rule exI [of _ e], intro conjI refl e1 e2)
  qed
  show ?thesis
    unfolding Some option.case by (rule conjI [OF a b])
qed

theorem getMediaMimeExtension_rejected_iff_witness:
  "take 6 (toLowerCase (trim ''text/html'')) \<notin> {''image/'', ''audio/'', ''video/''} \<and>
   getMediaMimeExtension (mime_extension sample_extensions) (Some ''text/html'') = None \<and>
   getMediaMimeExtension (mime_extension sample_extensions) (Some '' Image/PNG'') = Some ''png''"
proof -
  have a: "take 6 (toLowerCase (trim ''text/html'')) \<notin> {''image/'', ''audio/'', ''video/''}"
    by code_simp
  have b: "getMediaMimeExtension (mime_extension sample_extensions) (Some '' Image/PNG'') =
      Some ''png''"
    by code_simp
  have "getMediaMimeExtension (mime_extension sample_extensions) (Some ''text/html'') = None \<longleftrightarrow>
      ''text/html'' = [] \<or>
      take 6 (toLowerCase (trim ''text/html'')) \<notin> {''image/'', ''audio/'', ''video/''} \<or>
      mime_extension sample_extensions ''text/html'' = None"
    using getMediaMimeExtension_rejected_iff
      [of "mime_extension sample_extensions" "Some ''text/html''", THEN conjunct1]
    unfolding option.case .
  then have c: "getMediaMimeExtension (mime_extension sample_extensions) (Some ''text/html'') = None"
    by (rule iffD2) (rule disjI2, rule disjI1, rule a)
  show ?thesis by (rule conjI [OF a conjI [OF c b]])
qed


text \<open>
  C5, as amended. Whatever \<^verbatim>\<open>mime.extension\<close> computes: when it gives \<^verbatim>\<open>jpeg\<close> for
  \<^verbatim>\<open>image/jpeg\<close> the classifier answers \<^verbatim>\<open>jpg\<close>; for \<^verbatim>\<open>audio/mpeg\<close> the classifier
  answers what \<^verbatim>\<open>mime.extension\<close> gives, the table's default extension; the classifier
  never answers \<^verbatim>\<open>jpeg\<close>; and an accepted type for which \<^verbatim>\<open>mime.extension\<close> does not
  give \<^verbatim>\<open>jpeg\<close> gets the extension \<^verbatim>\<open>mime.extension\<close> gives.
\<close>

theorem getMediaMimeExtension_jpeg_override:
  "(ext_of ''image/jpeg'' = Some ''jpeg'' \<longrightarrow>
      getMediaMimeExtension ext_of (Some ''image/jpeg'') = Some ''jpg'') \<and>
   (\<forall>e. ext_of ''audio/mpeg'' = Some e \<longrightarrow> e \<noteq> ''jpeg'' \<longrightarrow>
      getMediaMimeExtension ext_of (Some ''audio/mpeg'') = Some e) \<and>
   (\<forall>type. getMediaMimeExtension ext_of type \<noteq> Some ''jpeg'') \<and>
   (\<forall>ty e. getMediaMimeExtension ext_of (Some ty) = Some e \<longrightarrow>
      ext_of ty \<noteq> Some ''jpeg'' \<longrightarrow> ext_of ty = Some e)"
proof -
  have tr1: "toLowerCase (trim ''image/jpeg'') = ''image/jpeg''"
    by (simp add: toLowerCase_def trim_def is_white_space_def lower_char_def)
  have tr2: "toLowerCase (trim ''audio/mpeg'') = ''audio/mpeg''"
    by (simp add: toLowerCase_def trim_def is_white_space_def lower_char_def)
  have a: "ext_of ''image/jpeg'' = Some ''jpeg'' \<longrightarrow>
      getMediaMimeExtension ext_of (Some ''image/jpeg'') = Some ''jpg''"
    by (simp add: getMediaMimeExtension_def allowed_iff tr1)
  have b: "\<forall>e. ext_of ''audio/mpeg'' = Some e \<longrightarrow> e \<noteq> ''jpeg'' \<longrightarrow>
      getMediaMimeExtension ext_of (Some ''audio/mpeg'') = Some e"
    by (simp add: getMediaMimeExtension_def allowed_iff tr2)
  have c: "\<forall>type. getMediaMimeExtension ext_of type \<noteq> Some ''jpeg''"
    by (auto simp add: getMediaMimeExtension_def Let_def split: option.splits)
  have d: "\<forall>ty e. getMediaMimeExtension ext_of (Some ty) = Some e \<longrightarrow>
      ext_of ty \<noteq> Some ''jpeg'' \<longrightarrow> ext_of ty = Some e"
    by (auto simp add: getMediaMimeExtension_def Let_def split: option.splits if_splits)
  show ?thesis by (intro conjI a b c d)
qed

theorem getMediaMimeExtension_jpeg_override_witness:
  "mime_extension sample_extensions ''image/jpeg'' = Some ''jpeg'' \<and>
   getMediaMimeExtension (mime_extension sample_extensions) (Some ''image/jpeg'') = Some ''jpg'' \<and>
   mime_extension sample_extensions ''audio/mpeg'' = Some ''mpga'' \<and>
   getMediaMimeExtension (mime_extension sample_extensions) (Some ''audio/mpeg'') = Some ''mpga'' \<and>
   getMediaMimeExtension (mime_extension sample_extensions) (Some ''image/png'') = Some ''png'' \<and>
   mime_extension sample_extensions ''image/png'' = Some ''png''"
proof -
  have h1: "mime_extension sample_extensions ''image/jpeg'' = Some ''jpeg''"
    and h2: "mime_extension sample_extensions ''audio/mpeg'' = Some ''mpga''"
    and h3: "''mpga'' \<noteq> ''jpeg''"
    and h4: "getMediaMimeExtension (mime_extension sample_extensions) (Some ''image/png'') =
      Some ''png''"
    and h5: "mime_extension sample_extensions ''image/png'' \<noteq> Some ''jpeg''"
    by code_simp+
  note t = getMediaMimeExtension_jpeg_override [of "mime_extension sample_extensions"]
  from t h1 have a: "getMediaMimeExtension (mime_extension sample_extensions)
      (Some ''image/jpeg'') = Some ''jpg''"
    by (elim conjE) (erule mp)
  from t have "mime_extension sample_extensions ''audio/mpeg'' = Some ''mpga'' \<longrightarrow>
      ''mpga'' \<noteq> ''jpeg'' \<longrightarrow>
      getMediaMimeExtension (mime_extension sample_extensions) (Some ''audio/mpeg'') =
        Some ''mpga''"
    by (elim conjE) (erule allE)
  with h2 h3 have b: "getMediaMimeExtension (mime_extension sample_extensions)
      (Some ''audio/mpeg'') = Some ''mpga''"
    by (elim impE) assumption+
  from t have "getMediaMimeExtension (mime_extension sample_extensions) (Some ''image/png'') =
      Some ''png'' \<longrightarrow> mime_extension sample_extensions ''image/png'' \<noteq> Some ''jpeg'' \<longrightarrow>
      mime_extension sample_extensions ''image/png'' = Some ''png''"
    by (elim conjE) (erule allE, erule allE)
  with h4 h5 have c: "mime_extension sample_extensions ''image/png'' = Some ''png''"
    by (elim impE) assumption+
  show ?thesis by (intro conjI h1 a h2 b h4 c)
qed

text \<open>
  C5 as stated fails: the table of mime-types lists \<^verbatim>\<open>mpga\<close> first for \<^verbatim>\<open>audio/mpeg\<close>,
  and the classifier overrides \<^verbatim>\<open>jpeg\<close> only, so it answers \<^verbatim>\<open>mpga\<close>, not \<^verbatim>\<open>mp3\<close>.
\<close>

theorem getMediaMimeExtension_jpeg_override_counterexample:
  "getMediaMimeExtension (mime_extension sample_extensions) (Some ''audio/mpeg'') = Some ''mpga'' \<and>
   Some ''mpga'' \<noteq> Some ''mp3''"
  by code_simp

lemma take_lower_prefix:
  assumes "take 6 (toLowerCase base) \<in> {''image/'', ''audio/'', ''video/''}"
  shows "6 \<le> length base" and "take 6 (toLowerCase (base @ z)) = take 6 (toLowerCase base)"
proof -
  have "length t = 6" if "t \<in> {''image/'', ''audio/'', ''video/''}" for t :: string
    using that by auto
  from this [OF assms] show l: "6 \<le> length base" by (simp add: toLowerCase_def)
  then show "take 6 (toLowerCase (base @ z)) = take 6 (toLowerCase base)"
    by (simp add: toLowerCase_def)
qed

lemma token_dropWhile:
  "\<forall>c\<in>set base. c \<noteq> CHR '';'' \<and> \<not> is_white_space c \<Longrightarrow>
     dropWhile is_white_space base = base"
  by (cases base) simp_all

lemma token_trim:
  assumes "\<forall>c\<in>set base. c \<noteq> CHR '';'' \<and> \<not> is_white_space c"
  shows "trim base = base"
proof -
  have "dropWhile is_white_space (rev base) = rev base"
    using assms by (cases "rev base") (simp, metis dropWhile.simps(2) list.set_intros(1) set_rev)
  then show ?thesis by (simp add: trim_def token_dropWhile [OF assms])
qed

lemma token_media_type:
  assumes "\<forall>c\<in>set base. c \<noteq> CHR '';'' \<and> \<not> is_white_space c"
  shows "media_type_of base = base"
  using assms by (simp add: media_type_of_def token_dropWhile [OF assms])

text \<open>
  C10. Let \<open>base\<close> be a media type (no semicolon and no white space in it) with an
  allowed prefix, for which the table has extensions, \<open>e\<close> first. Then the classifier
  accepts \<open>base\<close> followed by a semicolon and any parameters, and answers the base type's
  extension: \<open>e\<close>, or \<^verbatim>\<open>jpg\<close> when \<open>e\<close> is \<^verbatim>\<open>jpeg\<close>, as for \<open>base\<close> alone.
\<close>

theorem getMediaMimeExtension_parameters:
  "\<forall>c\<in>set base. c \<noteq> CHR '';'' \<and> \<not> is_white_space c \<Longrightarrow>
   take 6 (toLowerCase base) \<in> {''image/'', ''audio/'', ''video/''} \<Longrightarrow>
   extensions (toLowerCase base) = Some (e # others) \<Longrightarrow>
     getMediaMimeExtension (mime_extension extensions) (Some (base @ CHR '';'' # params)) =
       Some (if e = ''jpeg'' then ''jpg'' else e) \<and>
     getMediaMimeExtension (mime_extension extensions) (Some base) =
       Some (if e = ''jpeg'' then ''jpg'' else e)"
proof -
  assume token: "\<forall>c\<in>set base. c \<noteq> CHR '';'' \<and> \<not> is_white_space c"
    and pre: "take 6 (toLowerCase base) \<in> {''image/'', ''audio/'', ''video/''}"
    and tbl: "extensions (toLowerCase base) = Some (e # others)"
  let ?full = "base @ CHR '';'' # params"
  from take_lower_prefix(1) [OF pre] have ne: "base \<noteq> []" by auto
  have m1: "mime_extension extensions base = Some e"
    using ne tbl by (simp add: mime_extension_def token_media_type [OF token])
  have m2: "mime_extension extensions ?full = Some e"
    using tbl by (simp add: mime_extension_def media_type_of_params token_media_type [OF token])
  have t2: "trim ?full = base @ CHR '';'' # rev (dropWhile is_white_space (rev params))"
    by (simp only: trim_params token_dropWhile [OF token])
  have p1: "take 6 (toLowerCase (trim base)) \<in> {''image/'', ''audio/'', ''video/''}"
    using pre by (simp only: token_trim [OF token])
  have p2: "take 6 (toLowerCase (trim ?full)) \<in> {''image/'', ''audio/'', ''video/''}"
    using pre by (simp only: t2 take_lower_prefix(2) [OF pre])
  have a: "getMediaMimeExtension (mime_extension extensions) (Some ?full) =
      Some (if e = ''jpeg'' then ''jpg'' else e)"
    unfolding classify_unfold using p2 by (simp add: m2)
  have b: "getMediaMimeExtension (mime_extension extensions) (Some base) =
      Some (if e = ''jpeg'' then ''jpg'' else e)"
    unfolding classify_unfold using p1 ne by (simp add: m1)
  show ?thesis by (rule conjI [OF a b])
qed

theorem getMediaMimeExtension_parameters_witness:
  "list_all (\<lambda>c. c \<noteq> CHR '';'' \<and> \<not> is_white_space c) ''image/png'' \<and>
   take 6 (toLowerCase ''image/png'') = ''image/'' \<and>
   sample_extensions (toLowerCase ''image/png'') = Some [''png''] \<and>
   getMediaMimeExtension (mime_extension sample_extensions) (Some ''image/png; charset=utf-8'') =
     Some ''png'' \<and>
   getMediaMimeExtension (mime_extension sample_extensions) (Some ''image/jpeg;q=1'') =
     Some ''jpg''"
proof -
  have h1: "\<forall>c\<in>set ''image/png''. c \<noteq> CHR '';'' \<and> \<not> is_white_space c"
    by (simp add: is_white_space_def)
  have h2: "take 6 (toLowerCase ''image/png'') = ''image/''" by code_simp
  then have h2': "take 6 (toLowerCase ''image/png'') \<in> {''image/'', ''audio/'', ''video/''}"
    by simp
  have h3: "sample_extensions (toLowerCase ''image/png'') = Some [''png'']" by code_simp
  have g1: "\<forall>c\<in>set ''image/jpeg''. c \<noteq> CHR '';'' \<and> \<not> is_white_space c"
    by (simp add: is_white_space_def)
  have g2: "take 6 (toLowerCase ''image/jpeg'') \<in> {''image/'', ''audio/'', ''video/''}"
    by code_simp
  have g3: "sample_extensions (toLowerCase ''image/jpeg'') = Some [''jpeg'', ''jpg'', ''jpe'']"
    by code_simp
  from getMediaMimeExtension_parameters
    [of "''image/png''" sample_extensions "''png''" "[]" "'' charset=utf-8''", OF h1 h2' h3]
  have a: "getMediaMimeExtension (mime_extension sample_extensions)
      (Some ''image/png; charset=utf-8'') = Some ''png''"
    by simp
  from getMediaMimeExtension_parameters
    [of "''image/jpeg''" sample_extensions "''jpeg''" "[''jpg'', ''jpe'']" "''q=1''", OF g1 g2 g3]
  have b: "getMediaMimeExtension (mime_extension sample_extensions)
      (Some ''image/jpeg;q=1'') = Some ''jpg''"
    by simp
  from h1 have h1': "list_all (\<lambda>c. c \<noteq> CHR '';'' \<and> \<not> is_white_space c) ''image/png''"
    by (simp only: list_all_iff)
  show ?thesis by (intro conjI h1' h2 h3 a b)
qed

section \<open>Properties of the rounding\<close>

lemma rne_of_int: "rne (of_int k) = k"
  by (simp add: rne_def)

lemma rne_floor: "\<lfloor>y\<rfloor> \<le> rne y \<and> rne y \<le> \<lfloor>y\<rfloor> + 1"
  unfolding rne_def Let_def by auto

lemma rne_mono: "y \<le> z \<Longrightarrow> rne y \<le> rne z"
proof -
  assume le: "y \<le> z"
  then have fl: "\<lfloor>y\<rfloor> \<le> \<lfloor>z\<rfloor>" by (rule floor_mono)
  show ?thesis
  proof (cases "\<lfloor>y\<rfloor> = \<lfloor>z\<rfloor>")
    case True
    then show ?thesis
      using le unfolding rne_def Let_def by auto
  next
    case False
    with fl have "\<lfloor>y\<rfloor> + 1 \<le> \<lfloor>z\<rfloor>" by simp
    with rne_floor [of y] rne_floor [of z] show ?thesis by linarith
  qed
qed

text \<open>The exponent computed from the bit lengths is the binary exponent.\<close>

lemma expo_bounds:
  assumes "0 < x"
  shows "2 powi expo x \<le> x \<and> x < 2 powi (expo x + 1)"
proof -
  obtain p q where pq: "quotient_of x = (p, q)" by (cases "quotient_of x")
  then have q: "0 < q" and x: "x = of_int p / of_int q"
    by (simp_all add: quotient_of_denom_pos quotient_of_div)
  from assms q x have p: "0 < p" by (simp add: zero_less_divide_iff)
  define a where "a = nat p"
  define b where "b = nat q"
  have a: "0 < a" "of_int p = (of_nat a :: rat)" and b: "0 < b" "of_int q = (of_nat b :: rat)"
    using p q by (simp_all add: a_def b_def)
  define la where "la = floorlog 2 a"
  define lb where "lb = floorlog 2 b"
  from floorlog_bounds [of a 2] a have ba: "2 ^ (la - 1) \<le> a" "a < 2 ^ la"
    by (simp_all add: la_def)
  from floorlog_bounds [of b 2] b have bb: "2 ^ (lb - 1) \<le> b" "b < 2 ^ lb"
    by (simp_all add: lb_def)
  have la: "0 < la" and lb: "0 < lb"
  proof -
    have "floorlog 2 a \<noteq> 0" "floorlog 2 b \<noteq> 0"
      using a(1) b(1) by (simp_all add: floorlog_eq_zero_iff)
    then show "0 < la" "0 < lb" by (simp_all add: la_def lb_def)
  qed
  define s where "s = int la - int lb"
  have xa: "x = of_nat a / of_nat b" by (simp add: x a b)
  have ra: "(2::rat) ^ (la - 1) \<le> of_nat a" "(of_nat a :: rat) < 2 ^ la"
    using ba
    by (metis of_nat_le_iff of_nat_numeral of_nat_power,
        metis of_nat_less_iff of_nat_numeral of_nat_power)
  have rb: "(2::rat) ^ (lb - 1) \<le> of_nat b" "(of_nat b :: rat) < 2 ^ lb"
    using bb
    by (metis of_nat_le_iff of_nat_numeral of_nat_power,
        metis of_nat_less_iff of_nat_numeral of_nat_power)
  have bpos: "0 < (of_nat b :: rat)" using b by simp
  have up: "x < 2 powi (s + 1)"
  proof -
    have "x * of_nat b < 2 ^ la" using ra(2) bpos by (simp add: xa)
    also have "(2::rat) ^ la = 2 powi (s + 1) * 2 ^ (lb - 1)"
    proof -
      have "int la = (s + 1) + int (lb - 1)" using lb by (simp add: s_def)
      then have "(2::rat) powi int la = 2 powi (s + 1) * 2 powi int (lb - 1)"
        by (simp add: power_int_add)
      then show ?thesis by simp
    qed
    also have "\<dots> \<le> 2 powi (s + 1) * of_nat b"
      using rb(1) by (simp add: mult_left_mono)
    finally show ?thesis using bpos by simp
  qed
  have low: "2 powi (s - 1) \<le> x"
  proof -
    have "2 powi (s - 1) * of_nat b \<le> 2 powi (s - 1) * (2::rat) ^ lb"
      using rb(2) by (simp add: mult_left_mono)
    also have "2 powi (s - 1) * (2::rat) ^ lb = 2 ^ (la - 1)"
    proof -
      have "int (la - 1) = (s - 1) + int lb" using la by (simp add: s_def)
      then have "(2::rat) powi int (la - 1) = 2 powi (s - 1) * 2 powi int lb"
        by (simp add: power_int_add)
      then show ?thesis by simp
    qed
    also have "\<dots> \<le> of_nat a" by (rule ra(1))
    finally show ?thesis using bpos by (simp add: xa pos_le_divide_eq)
  qed
  have e: "expo x = (if 2 powi s \<le> x then s else s - 1)"
    by (simp add: expo_def pq s_def la_def lb_def a_def b_def)
  show ?thesis
  proof (cases "2 powi s \<le> x")
    case True
    with up e show ?thesis by simp
  next
    case False
    with low e show ?thesis by simp
  qed
qed

lemma expo_mono:
  assumes "0 < x" "x \<le> y"
  shows "expo x \<le> expo y"
proof -
  from assms have "0 < y" by simp
  from expo_bounds [OF assms(1)] expo_bounds [OF this] assms(2)
  have lt: "(2::rat) powi expo x < 2 powi (expo y + 1)" by linarith
  have "expo x < expo y + 1"
  proof (rule ccontr)
    assume "\<not> expo x < expo y + 1"
    then have "expo y + 1 \<le> expo x" by simp
    then have "(2::rat) powi (expo y + 1) \<le> 2 powi expo x"
      by (simp add: power_int_increasing)
    with lt show False by simp
  qed
  then show ?thesis by simp
qed

text \<open>A positive number and the double nearest to it lie between the same powers of two.\<close>

lemma double_pos_bounds:
  assumes "0 < x"
  shows "2 powi expo x \<le> double_pos x \<and> double_pos x \<le> 2 powi (expo x + 1)"
proof -
  define u :: rat where "u = 2 powi (expo x - 52)"
  have u: "0 < u" by (simp add: u_def)
  have lo: "2 powi expo x = 2 ^ 52 * u" and hi: "2 powi (expo x + 1) = 2 ^ 53 * u"
    unfolding u_def by (simp_all add: power_int_diff power_int_add)
  from expo_bounds [OF assms] have "2 ^ 52 \<le> x / u" "x / u \<le> 2 ^ 53"
    using u by (simp_all add: lo hi pos_le_divide_eq pos_divide_le_eq)
  then have "rne (2 ^ 52) \<le> rne (x / u)" "rne (x / u) \<le> rne (2 ^ 53)"
    by (simp_all add: rne_mono)
  moreover have "rne (2 ^ 52) = 2 ^ 52" "rne (2 ^ 53) = 2 ^ 53"
    using rne_of_int [of "2 ^ 52"] rne_of_int [of "2 ^ 53"] by simp_all
  ultimately have "(2::rat) ^ 52 \<le> of_int (rne (x / u))"
    "of_int (rne (x / u)) \<le> (2::rat) ^ 53"
    by (metis of_int_le_iff of_int_numeral of_int_power)+
  then have "2 ^ 52 * u \<le> of_int (rne (x / u)) * u" "of_int (rne (x / u)) * u \<le> 2 ^ 53 * u"
    using u by (simp_all add: mult_right_mono)
  then show ?thesis
    by (simp add: lo hi double_pos_def u_def)
qed

lemma double_pos_mono:
  assumes "0 < x" "x \<le> y"
  shows "double_pos x \<le> double_pos y"
proof (cases "expo x = expo y")
  case True
  have "0 < (2::rat) powi (expo y - 52)" by simp
  then have "x / 2 powi (expo y - 52) \<le> y / 2 powi (expo y - 52)"
    using assms(2) by (simp add: divide_right_mono)
  then have "rne (x / 2 powi (expo y - 52)) \<le> rne (y / 2 powi (expo y - 52))"
    by (rule rne_mono)
  then show ?thesis
    by (simp add: double_pos_def True mult_right_mono)
next
  case False
  from assms have y: "0 < y" by simp
  from False expo_mono [OF assms] have "expo x + 1 \<le> expo y" by simp
  then have "(2::rat) powi (expo x + 1) \<le> 2 powi expo y"
    by (simp add: power_int_increasing)
  with double_pos_bounds [OF assms(1)] double_pos_bounds [OF y] show ?thesis by linarith
qed

lemma double_of_mono: "0 \<le> x \<Longrightarrow> x \<le> y \<Longrightarrow> double_of x \<le> double_of y"
proof -
  assume x: "0 \<le> x" and le: "x \<le> y"
  show ?thesis
  proof (cases "x = 0")
    case True
    show ?thesis
    proof (cases "y = 0")
      case True
      with \<open>x = 0\<close> show ?thesis by simp
    next
      case False
      with le True have y: "0 < y" by simp
      have "0 < (2::rat) powi expo y" by simp
      with double_pos_bounds [OF y] have "0 < double_pos y" by linarith
      with y True show ?thesis by (simp add: double_of_def)
    qed
  next
    case False
    with x have "0 < x" by simp
    with le double_pos_mono [OF this le] show ?thesis
      by (simp add: double_of_def)
  qed
qed

lemma double_of_0: "double_of 0 = 0"
  by (simp add: double_of_def)

lemma double_of_1: "double_of 1 = 1"
  by code_simp

lemma double_of_nonneg: "0 \<le> x \<Longrightarrow> 0 \<le> double_of x"
  using double_of_mono [of 0 x] by (simp add: double_of_0)

lemma double_of_le_1: "0 \<le> x \<Longrightarrow> x \<le> 1 \<Longrightarrow> double_of x \<le> 1"
  using double_of_mono [of x 1] by (simp add: double_of_1)

lemma round2_mono: "x \<le> y \<Longrightarrow> round2 x \<le> round2 y"
  unfolding round2_def by (intro divide_right_mono of_int_le_iff [THEN iffD2] floor_mono) simp_all

lemma round2_0: "round2 0 = 0"
proof -
  have "\<lfloor>(1::rat) / 2\<rfloor> = 0" by (rule floor_unique) simp_all
  then show ?thesis by (simp add: round2_def)
qed

lemma round2_1: "round2 1 = 1"
proof -
  have "\<lfloor>(201::rat) / 2\<rfloor> = 100" by (rule floor_unique) simp_all
  then show ?thesis by (simp add: round2_def)
qed

lemma round2_nonneg: "0 \<le> x \<Longrightarrow> 0 \<le> round2 x"
  using round2_mono [of 0 x] by (simp add: round2_0)

lemma round2_le_1: "x \<le> 1 \<Longrightarrow> round2 x \<le> 1"
  using round2_mono [of x 1] by (simp add: round2_1)

lemma round2_ge_1: "1 \<le> x \<Longrightarrow> 1 \<le> round2 x"
  using round2_mono [of 1 x] by (simp add: round2_1)


section \<open>Properties of the transfer\<close>

lemma sample_start:
  "downloadMedia_start (mime_extension sample_extensions) (png_response (Some 4)) None ''/tmp/pic''
     fresh_progress Map.empty = Inr sample_transfer"
proof -
  have "getMediaMimeExtension (mime_extension sample_extensions) (Some ''image/png'') = Some ''png''"
    by code_simp
  then show ?thesis
    by (simp add: downloadMedia_start_def png_response_def sample_transfer_def)
qed

lemmas handler_defs = on_data_def pipe_write_def settle_def on_close_def on_error_def

lemma run_append: "run s (es @ fs) = run (run s es) fs"
  by (induction es arbitrary: s) simp_all

lemma step_promise_settled: "promise s = Some r \<Longrightarrow> promise (step e s) = Some r"
  by (cases e) (simp_all add: handler_defs split: option.splits)

lemma run_promise_settled: "promise s = Some r \<Longrightarrow> promise (run s es) = Some r"
  by (induction es arbitrary: s) (simp_all add: step_promise_settled)

lemma step_shouldStop: "shouldStop (prog s) \<Longrightarrow> shouldStop (prog (step e s))"
  by (cases e) (simp_all add: handler_defs split: option.splits)

lemma run_shouldStop: "shouldStop (prog s) \<Longrightarrow> shouldStop (prog (run s es))"
  by (induction es arbitrary: s) (simp_all add: step_shouldStop)

lemma step_closed: "\<not> writer_open s \<Longrightarrow> \<not> writer_open (step e s) \<and> disk (step e s) = disk s"
  by (cases e) (simp_all add: handler_defs split: option.splits)

lemma run_closed: "\<not> writer_open s \<Longrightarrow> \<not> writer_open (run s es) \<and> disk (run s es) = disk s"
proof (induction es arbitrary: s)
  case Nil
  then show ?case by simp
next
  case (Cons e es)
  from step_closed [OF Cons.prems, of e] Cons.IH [of "step e s"] show ?case by simp
qed

lemma step_fixed:
  "ext (step e s) = ext s \<and> totalLength (step e s) = totalLength s \<and>
   writer_path (step e s) = writer_path s"
  by (cases e) (simp_all add: handler_defs split: option.splits)

lemma run_fixed:
  "ext (run s es) = ext s \<and> totalLength (run s es) = totalLength s \<and>
   writer_path (run s es) = writer_path s"
  by (induction es arbitrary: s) (simp_all add: step_fixed)

lemma step_stop_not_resolved:
  "shouldStop (prog s) \<Longrightarrow> promise s \<noteq> Some (Resolved x) \<Longrightarrow>
     promise (step e s) \<noteq> Some (Resolved x)"
  by (cases e) (auto simp add: handler_defs split: option.splits)

lemma run_stop_not_resolved:
  "shouldStop (prog s) \<Longrightarrow> promise s \<noteq> Some (Resolved x) \<Longrightarrow>
     promise (run s es) \<noteq> Some (Resolved x)"
proof (induction es arbitrary: s)
  case Nil
  then show ?case by simp
next
  case (Cons e es)
  from Cons.prems have "shouldStop (prog (step e s))" "promise (step e s) \<noteq> Some (Resolved x)"
    by (simp_all add: step_shouldStop step_stop_not_resolved)
  then show ?case using Cons.IH by simp
qed

lemma cancelled_chunk:
  "shouldStop (prog s) \<Longrightarrow> promise s = None \<Longrightarrow>
     promise (step (Data chunk) s) = Some (Rejected WriteAfterEnd)"
  by (simp add: handler_defs)

lemma run_resolved:
  "promise s = None \<Longrightarrow> writer_open s \<Longrightarrow> disk s (writer_path s) = Some w \<Longrightarrow>
   promise (run s es) = Some (Resolved x) \<Longrightarrow>
     x = ext s \<and> disk (run s es) = (disk s)(writer_path s \<mapsto> w @ data_of (before_close es))"
proof (induction es arbitrary: s w)
  case Nil
  then show ?case by simp
next
  case (Cons e es)
  show ?case
  proof (cases e)
    case (Data chunk)
    show ?thesis
    proof (cases "shouldStop (prog s)")
      case True
      then have "shouldStop (prog (step e s))" by (rule step_shouldStop)
      moreover have "promise (step e s) \<noteq> Some (Resolved x)"
        using Cons.prems(1) Data by (simp add: handler_defs split: option.splits)
      ultimately have "promise (run (step e s) es) \<noteq> Some (Resolved x)"
        by (rule run_stop_not_resolved)
      with Cons.prems(4) show ?thesis by simp
    next
      case False
      let ?s = "step (Data chunk) s"
      have a: "promise ?s = None" "writer_open ?s"
        "writer_path ?s = writer_path s" "ext ?s = ext s"
        "disk ?s = (disk s)(writer_path s \<mapsto> w @ chunk)"
        using False Cons.prems(1,2,3)
        by (simp_all add: handler_defs split: option.splits)
      have b: "disk ?s (writer_path ?s) = Some (w @ chunk)"
        by (simp only: a fun_upd_same)
      from Cons.prems(4) have c: "promise (run ?s es) = Some (Resolved x)"
        by (simp add: Data)
      from Cons.IH [OF a(1) a(2) b c]
      have "x = ext s \<and>
        disk (run ?s es) = (disk s)(writer_path s \<mapsto> w @ chunk @ data_of (before_close es))"
        by (simp only: a fun_upd_upd append_assoc)
      then show ?thesis
        by (simp del: step.simps add: Data)
    qed
  next
    case StopRequested
    have "shouldStop (prog (step e s))" "promise (step e s) \<noteq> Some (Resolved x)"
      using Cons.prems(1) StopRequested by simp_all
    then have "promise (run (step e s) es) \<noteq> Some (Resolved x)"
      by (rule run_stop_not_resolved)
    with Cons.prems(4) show ?thesis by simp
  next
    case WriterClose
    have a: "promise (step e s) =
        Some (if shouldStop (prog s)
              then Rejected (GracefulStopError ''Interrupted http download.'')
              else Resolved (ext s))"
      "\<not> writer_open (step e s)" "disk (step e s) = disk s"
      using Cons.prems(1) WriterClose by (simp_all add: handler_defs)
    from run_promise_settled [OF a(1), of es] Cons.prems(4) have x: "x = ext s"
      by (simp split: if_splits)
    from run_closed [OF a(2), of es] a(3) have "disk (run s (e # es)) = disk s" by simp
    moreover have "(disk s)(writer_path s \<mapsto> w @ data_of (before_close (e # es))) = disk s"
      using Cons.prems(3) WriterClose by (simp add: map_upd_triv)
    ultimately show ?thesis using x by simp
  next
    case (WriterError err)
    have "promise (step e s) = Some (Rejected (Cause err))"
      using Cons.prems(1) WriterError by (simp add: handler_defs)
    from run_promise_settled [OF this, of es] Cons.prems(4) show ?thesis by simp
  next
    case (SourceError err)
    with Cons.prems Cons.IH [of s w] show ?thesis by simp
  qed
qed


lemma toFixed2_js_div:
  "0 < n \<Longrightarrow>
     toFixed2 (js_div a n) = Num (double_of (round2 (double_of (of_nat a / of_nat n))))"
proof -
  have "0 \<le> (of_nat a / of_nat n :: rat)" by simp
  then have "0 \<le> double_of (of_nat a / of_nat n)" by (rule double_of_nonneg)
  then have "\<not> double_of (of_nat a / of_nat n) < 0" by (simp only: not_less)
  then show "0 < n \<Longrightarrow>
     toFixed2 (js_div a n) = Num (double_of (round2 (double_of (of_nat a / of_nat n))))"
    by (simp add: js_div_def)
qed

lemma percent_value_mono:
  assumes "0 \<le> x" "x \<le> y"
  shows "double_of (round2 (double_of x)) \<le> double_of (round2 (double_of y))"
proof -
  from assms have "double_of x \<le> double_of y" by (rule double_of_mono)
  then have "round2 (double_of x) \<le> round2 (double_of y)" by (rule round2_mono)
  moreover have "0 \<le> round2 (double_of x)"
    using assms(1) by (intro round2_nonneg double_of_nonneg)
  ultimately show ?thesis by (rule double_of_mono [rotated])
qed

lemma percent_value_1: "double_of (round2 (double_of 1)) = 1"
  by (simp add: double_of_1 round2_1)

lemma percent_value_unit:
  assumes "0 \<le> x" "x \<le> 1"
  shows "0 \<le> double_of (round2 (double_of x)) \<and> double_of (round2 (double_of x)) \<le> 1"
proof -
  have "0 \<le> round2 (double_of x)"
    using assms(1) by (intro round2_nonneg double_of_nonneg)
  then have "0 \<le> double_of (round2 (double_of x))" by (rule double_of_nonneg)
  moreover from percent_value_mono [OF assms] have "double_of (round2 (double_of x)) \<le> 1"
    by (simp only: percent_value_1)
  ultimately show ?thesis by simp
qed

lemma percent_value_above_1:
  assumes "101 / 100 \<le> x"
  shows "1 < double_of (round2 (double_of x))"
proof -
  have "(0::rat) \<le> 101 / 100" by simp
  from percent_value_mono [OF this assms]
  have "double_of (round2 (double_of (101 / 100))) \<le> double_of (round2 (double_of x))" .
  moreover have "1 < double_of (round2 (double_of (101 / 100)))" by code_simp
  ultimately show ?thesis by simp
qed

text \<open>
  Line 87 on three quotients whose doubles lie below the half-way point they denote:
  0.015, 0.045 and 1.005 go to 0.01, 0.04 and 1.
\<close>

lemma toFixed2_below_half_way:
  "toFixed2 (js_div 3 200) = Num (double_of (1 / 100))"
  "toFixed2 (js_div 9 200) = Num (double_of (1 / 25))"
  "toFixed2 (js_div 201 200) = Num 1"
  by code_simp+

lemma step_data_progress:
  "\<not> shouldStop (prog s) \<Longrightarrow> totalLength s = Some n \<Longrightarrow> writer_open s \<Longrightarrow>
     knowsPercent (prog (step (Data chunk) s)) \<and>
     percent (prog (step (Data chunk) s)) = toFixed2 (js_div (downloaded s + length chunk) n) \<and>
     downloaded (step (Data chunk) s) = downloaded s + length chunk \<and>
     \<not> shouldStop (prog (step (Data chunk) s)) \<and>
     writer_open (step (Data chunk) s) \<and>
     promise (step (Data chunk) s) = promise s"
  by (simp add: handler_defs)

lemma run_data:
  "\<not> shouldStop (prog s) \<Longrightarrow> totalLength s = Some n \<Longrightarrow> writer_open s \<Longrightarrow>
     downloaded (run s (map Data cs)) = downloaded s + length (concat cs) \<and>
     \<not> shouldStop (prog (run s (map Data cs))) \<and>
     writer_open (run s (map Data cs)) \<and>
     promise (run s (map Data cs)) = promise s"
proof (induction cs arbitrary: s)
  case Nil
  then show ?case by simp
next
  case (Cons c cs)
  from step_data_progress [OF Cons.prems, of c]
  have a: "\<not> shouldStop (prog (step (Data c) s))"
    and b: "downloaded (step (Data c) s) = downloaded s + length c"
    and c: "promise (step (Data c) s) = promise s"
    and w: "writer_open (step (Data c) s)"
    by simp_all
  have d: "totalLength (step (Data c) s) = Some n"
    using Cons.prems(2) by (simp only: step_fixed)
  from Cons.IH [OF a d w] b c show ?case
    by (simp del: step.simps)
qed

lemma run_data_percent:
  assumes "\<not> shouldStop (prog s)" and "totalLength s = Some n" and "writer_open s"
    and "0 < k" and "k \<le> length cs"
  shows "knowsPercent (prog (run s (map Data (take k cs)))) \<and>
     percent (prog (run s (map Data (take k cs)))) =
       toFixed2 (js_div (downloaded s + length (concat (take k cs))) n)"
proof -
  from assms(4,5) obtain j where j: "k = Suc j" "j < length cs"
    by (cases k) simp_all
  let ?b = "run s (map Data (take j cs))"
  have t: "take k cs = take j cs @ [cs ! j]"
    using j by (simp add: take_Suc_conv_app_nth)
  have r: "run s (map Data (take k cs)) = step (Data (cs ! j)) ?b"
    by (simp only: t map_append run_append list.map run.simps)
  from run_data [OF assms(1,2,3), of "take j cs"]
  have b: "\<not> shouldStop (prog ?b)" "downloaded ?b = downloaded s + length (concat (take j cs))"
    "writer_open ?b"
    by simp_all
  have n: "totalLength ?b = Some n"
    using assms(2) by (simp only: run_fixed)
  have l: "length (concat (take k cs)) = length (concat (take j cs)) + length (cs ! j)"
    by (simp add: t)
  from step_data_progress [OF b(1) n b(3), of "cs ! j"]
  have "knowsPercent (prog (step (Data (cs ! j)) ?b)) \<and>
     percent (prog (step (Data (cs ! j)) ?b)) =
       toFixed2 (js_div (downloaded s + (length (concat (take j cs)) + length (cs ! j))) n)"
    by (simp only: b(2) add.assoc)
  then show ?thesis
    by (simp only: r l)
qed

lemma length_concat_take_mono:
  "j \<le> k \<Longrightarrow> length (concat (take j cs)) \<le> length (concat (take k cs))"
proof -
  assume "j \<le> k"
  then have "take k cs = take j cs @ take (k - j) (drop j cs)"
    by (metis le_add_diff_inverse take_add)
  then show ?thesis by simp
qed


text \<open>
  C7. When the promise resolves, the value is the extension the classifier gave for the
  response's content type (the value itself, the dot is only put into the path),
  \<^verbatim>\<open>mkParents\<close> had completed without error, and the files on disk are those from before
  the call, except that the file at \<^verbatim>\<open>filePath + '.' + ext\<close> holds exactly the chunks the
  response stream emitted before the writer closed, whatever it held before.
\<close>

theorem downloadMedia_success:
  "downloadMedia ext_of request mkParents filePath p files es = (Some (Resolved x), p', files') \<Longrightarrow>
     (\<exists>hs. request = Inr hs \<and> getMediaMimeExtension ext_of (content_type hs) = Some x) \<and>
     x \<noteq> [] \<and> mkParents = None \<and>
     files' = files(filePath @ ''.'' @ x \<mapsto> data_of (before_close es))"
proof -
  assume ok: "downloadMedia ext_of request mkParents filePath p files es =
    (Some (Resolved x), p', files')"
  then obtain s where s: "downloadMedia_start ext_of request mkParents filePath p files = Inr s"
    by (cases "downloadMedia_start ext_of request mkParents filePath p files")
      (auto simp add: downloadMedia_def)
  from s obtain hs y where hs: "request = Inr hs"
    and y: "getMediaMimeExtension ext_of (content_type hs) = Some y" "y \<noteq> []"
    and mk: "mkParents = None"
    and s_def: "s = \<lparr>prog = p, disk = files(filePath @ ''.'' @ y \<mapsto> []), ext = y,
        totalLength = content_length hs, writer_path = filePath @ ''.'' @ y, downloaded = 0,
        writer_open = True, close_calls = 0, cancel_calls = 0, promise = None\<rparr>"
    by (auto simp add: downloadMedia_start_def split: sum.splits option.splits if_splits)
  from ok s have r: "promise (run s es) = Some (Resolved x)" and d: "files' = disk (run s es)"
    by (simp_all add: downloadMedia_def)
  have "promise s = None" "writer_open s" "disk s (writer_path s) = Some []"
    by (simp_all add: s_def)
  from run_resolved [OF this r] have "x = y"
    and "disk (run s es) = files(filePath @ ''.'' @ y \<mapsto> data_of (before_close es))"
    by (simp_all add: s_def)
  with hs y mk d show ?thesis by simp
qed

theorem downloadMedia_success_witness:
  "downloadMedia (mime_extension sample_extensions) (png_response (Some 4)) None ''/tmp/pic''
     fresh_progress [''/tmp/pic.png'' \<mapsto> ''old content''] [Data ''ab'', Data ''cd'', WriterClose] =
     (Some (Resolved ''png''), \<lparr>shouldStop = False, knowsPercent = True, percent = Num 1\<rparr>,
      [''/tmp/pic.png'' \<mapsto> ''abcd'']) \<and>
   getMediaMimeExtension (mime_extension sample_extensions) (Some ''image/png'') = Some ''png''"
proof -
  have c: "getMediaMimeExtension (mime_extension sample_extensions) (Some ''image/png'') = Some ''png''"
    by code_simp
  have r2: "round2 (1 / 2) = 1 / 2" "round2 1 = 1" "double_of (1 / 2) = 1 / 2" "double_of 1 = 1"
    by code_simp+
  have h: "downloadMedia (mime_extension sample_extensions) (png_response (Some 4)) None ''/tmp/pic''
     fresh_progress [''/tmp/pic.png'' \<mapsto> ''old content''] [Data ''ab'', Data ''cd'', WriterClose] =
     (Some (Resolved ''png''), \<lparr>shouldStop = False, knowsPercent = True, percent = Num 1\<rparr>,
      [''/tmp/pic.png'' \<mapsto> ''abcd''])"
    by (simp add: downloadMedia_def downloadMedia_start_def png_response_def c handler_defs
        fresh_progress_def js_div_def r2)
  from downloadMedia_success [OF h] h c show ?thesis by simp
qed

text \<open>
  C3. When the classifier rejects the response's content type, the call is rejected with the
  \<^verbatim>\<open>Error\<close> for a non-media type, whatever \<^verbatim>\<open>mkParents\<close> would have done and whatever
  happens afterwards: the files on disk and the progress object are as before the call, so
  no file was created or opened.
\<close>

theorem downloadMedia_rejects_non_media:
  "getMediaMimeExtension ext_of (content_type hs) = None \<Longrightarrow>
     downloadMedia ext_of (Inr hs) mkParents filePath p files es =
       (Some (Rejected (Error ''Attempted to download non-media mimetype.'')), p, files)"
proof -
  assume rejected: "getMediaMimeExtension ext_of (content_type hs) = None"
  have thrown: "downloadMedia_start ext_of (Inr hs) mkParents filePath p files =
      Inl (Error ''Attempted to download non-media mimetype.'', files)"
    unfolding downloadMedia_start_def by (simp add: rejected)
  show ?thesis
    unfolding downloadMedia_def by (simp add: thrown)
qed

theorem downloadMedia_rejects_non_media_witness:
  "getMediaMimeExtension (mime_extension sample_extensions) (Some ''text/html'') = None \<and>
   downloadMedia (mime_extension sample_extensions)
     (Inr \<lparr>content_type = Some ''text/html'', content_length = Some 6\<rparr>) (None :: nat option)
     ''/tmp/page'' fresh_progress Map.empty [Data ''<html>'', WriterClose] =
     (Some (Rejected (Error ''Attempted to download non-media mimetype.'')), fresh_progress,
      Map.empty)"
proof -
  have c: "getMediaMimeExtension (mime_extension sample_extensions) (Some ''text/html'') = None"
    by code_simp
  then have h: "getMediaMimeExtension (mime_extension sample_extensions)
      (content_type \<lparr>content_type = Some ''text/html'', content_length = Some 6\<rparr>) = None"
    by simp
  from downloadMedia_rejects_non_media [OF h] c show ?thesis by simp
qed

text \<open>
  What the function does hand on: an error of the writer, while the promise is pending,
  rejects it with that very error, and nothing that follows changes the outcome.
\<close>

lemma writer_error_surfaced:
  "promise s = None \<Longrightarrow>
     promise (run (step (WriterError err) s) es) = Some (Rejected (Cause err))"
proof -
  assume "promise s = None"
  then have "promise (step (WriterError err) s) = Some (Rejected (Cause err))"
    by (simp add: handler_defs)
  then show ?thesis by (rule run_promise_settled)
qed

text \<open>
  C6. An error of the response stream during the transfer is not handed to the caller: with
  a chunk delivered and the stream then failing, the promise is still pending, and the error
  event changes nothing at all.
\<close>

theorem source_error_not_surfaced:
  "fst (downloadMedia (mime_extension sample_extensions) (png_response (Some 4)) None ''/tmp/pic''
      fresh_progress Map.empty [Data ''ab'', SourceError 104]) = None \<and>
   step (SourceError err) s = s"
proof -
  have "downloadMedia (mime_extension sample_extensions) (png_response (Some 4)) None
      ''/tmp/pic'' fresh_progress Map.empty [Data ''ab'', SourceError 104] =
    (promise (run sample_transfer [Data ''ab'', SourceError 104]),
     prog (run sample_transfer [Data ''ab'', SourceError 104]),
     disk (run sample_transfer [Data ''ab'', SourceError 104]))"
    by (simp add: downloadMedia_def sample_start del: run.simps)
  then show ?thesis
    by (simp add: sample_transfer_def handler_defs fresh_progress_def)
qed

text \<open>
  C2, as amended. After a call whose response declares a content length \<open>n > 0\<close>, with the
  stop flag down and the chunks \<open>cs\<close> delivered one after the other (\<open>n\<close> and the bytes
  delivered below \<open>2 ^ 53\<close>, so that the code's numbers hold them exactly): after each chunk
  \<^verbatim>\<open>knowsPercent\<close> is true and \<^verbatim>\<open>percent\<close> is the bytes so far over \<open>n\<close>, divided as
  doubles and rounded to two decimals; \<^verbatim>\<open>percent\<close> never decreases from one chunk to a
  later one; and when the chunks add up to the declared length, the writer's close resolves
  the promise with \<^verbatim>\<open>percent\<close> equal to 1.
\<close>

theorem percent_progress:
  "downloadMedia_start ext_of (Inr hs) mkParents filePath p files = Inr s \<Longrightarrow>
   content_length hs = Some n \<Longrightarrow> 0 < n \<Longrightarrow> n < 2 ^ 53 \<Longrightarrow>
   length (concat cs) < 2 ^ 53 \<Longrightarrow> \<not> shouldStop p \<Longrightarrow>
     (\<forall>k. 0 < k \<and> k \<le> length cs \<longrightarrow>
        knowsPercent (prog (run s (map Data (take k cs)))) \<and>
        percent (prog (run s (map Data (take k cs)))) =
          Num (double_of (round2 (double_of
            (of_nat (length (concat (take k cs))) / of_nat n))))) \<and>
     (\<forall>j k. 0 < j \<and> j \<le> k \<and> k \<le> length cs \<longrightarrow>
        js_le (percent (prog (run s (map Data (take j cs)))))
          (percent (prog (run s (map Data (take k cs)))))) \<and>
     (length (concat cs) = n \<longrightarrow>
        promise (run s (map Data cs @ [WriterClose])) = Some (Resolved (ext s)) \<and>
        percent (prog (run s (map Data cs @ [WriterClose]))) = Num 1)"
proof -
  assume start: "downloadMedia_start ext_of (Inr hs) mkParents filePath p files = Inr s"
    and len: "content_length hs = Some n" and n: "0 < n" and go: "\<not> shouldStop p"
    and exact: "n < 2 ^ 53" "length (concat cs) < 2 ^ 53"
  from start len go have s: "\<not> shouldStop (prog s)" "totalLength s = Some n"
    "writer_open s" "downloaded s = 0" "promise s = None"
    by (auto simp add: downloadMedia_start_def split: option.splits if_splits)
  have each: "knowsPercent (prog (run s (map Data (take k cs)))) \<and>
        percent (prog (run s (map Data (take k cs)))) =
          Num (double_of (round2 (double_of
            (of_nat (length (concat (take k cs))) / of_nat n))))"
    if "0 < k" "k \<le> length cs" for k
    using run_data_percent [OF s(1,2,3) that] n by (simp add: s(4) toFixed2_js_div)
  have mono: "js_le (percent (prog (run s (map Data (take j cs)))))
          (percent (prog (run s (map Data (take k cs)))))"
    if "0 < j" "j \<le> k" "k \<le> length cs" for j k
  proof -
    from that have "0 < k" "j \<le> length cs" by simp_all
    have le: "(of_nat (length (concat (take j cs))) :: rat) / of_nat n \<le>
        of_nat (length (concat (take k cs))) / of_nat n"
      using length_concat_take_mono [OF that(2), of cs] by (simp add: divide_right_mono)
    have "(0::rat) \<le> of_nat (length (concat (take j cs))) / of_nat n" by simp
    from percent_value_mono [OF this le] show ?thesis
      using each [OF that(1) \<open>j \<le> length cs\<close>] each [OF \<open>0 < k\<close> that(3)]
      by simp
  qed
  have final: "promise (run s (map Data cs @ [WriterClose])) = Some (Resolved (ext s)) \<and>
        percent (prog (run s (map Data cs @ [WriterClose]))) = Num 1"
    if all: "length (concat cs) = n"
  proof -
    let ?b = "run s (map Data cs)"
    from all n have "cs \<noteq> []" by auto
    then have k: "0 < length cs" by simp
    from each [OF k order_refl] all n have pc: "percent (prog ?b) = Num 1"
      by (simp add: percent_value_1)
    from run_data [OF s(1,2,3), of cs] s(5) have b: "\<not> shouldStop (prog ?b)" "promise ?b = None"
      by simp_all
    have e: "ext ?b = ext s" by (simp only: run_fixed)
    have "promise (step WriterClose ?b) = Some (Resolved (ext s))"
      "percent (prog (step WriterClose ?b)) = Num 1"
      using b pc e by (simp_all add: handler_defs)
    then show ?thesis by (simp only: run_append run.simps)
  qed
  from each mono final show ?thesis by blast
qed

theorem percent_progress_witness:
  "downloadMedia_start (mime_extension sample_extensions) (png_response (Some 4)) None ''/tmp/pic''
     fresh_progress Map.empty = Inr sample_transfer \<and>
   percent (prog (run sample_transfer [Data ''a''])) = Num (1 / 4) \<and>
   percent (prog (run sample_transfer [Data ''a'', Data ''bcd''])) = Num 1 \<and>
   percent (prog (run sample_transfer [Data ''a'', Data ''bcd'', WriterClose])) = Num 1 \<and>
   promise (run sample_transfer [Data ''a'', Data ''bcd'', WriterClose]) = Some (Resolved ''png'')"
proof -
  have h1: "downloadMedia_start (mime_extension sample_extensions)
      (Inr \<lparr>content_type = Some ''image/png'', content_length = Some 4\<rparr>) None ''/tmp/pic''
      fresh_progress Map.empty = Inr sample_transfer"
    using sample_start by (simp only: png_response_def)
  have h2: "content_length \<lparr>content_type = Some ''image/png'', content_length = Some 4\<rparr> = Some 4"
    by simp
  have h3: "0 < (4::nat)" by simp
  have h4: "\<not> shouldStop fresh_progress" by (simp add: fresh_progress_def)
  have h5: "(4::nat) < 2 ^ 53" by simp
  have h6: "length (concat [''a'', ''bcd'']) < 2 ^ 53" by simp
  have r2: "round2 (1 / 4) = 1 / 4" "round2 1 = 1" "double_of (1 / 4) = 1 / 4" "double_of 1 = 1"
    by code_simp+
  note t = percent_progress [OF h1 h2 h3 h5 h6 h4, THEN conjunct2, THEN conjunct2]
  have a: "percent (prog (run sample_transfer [Data ''a''])) = Num (1 / 4)"
    "percent (prog (run sample_transfer [Data ''a'', Data ''bcd''])) = Num 1"
    by (simp_all add: sample_transfer_def handler_defs fresh_progress_def js_div_def r2)
  from t have "promise (run sample_transfer [Data ''a'', Data ''bcd'', WriterClose]) =
      Some (Resolved ''png'') \<and>
    percent (prog (run sample_transfer [Data ''a'', Data ''bcd'', WriterClose])) = Num 1"
    by (simp add: sample_transfer_def del: step.simps run.simps)
  with a sample_start show ?thesis by simp
qed

text \<open>
  C2 as stated fails: a download can succeed with a final \<^verbatim>\<open>percent\<close> other than 1. With
  a declared length of 4 and 6 bytes delivered (the declared length counts the bytes on
  the wire, the chunks are what the HTTP client hands on, after decompression), the call
  resolves with \<^verbatim>\<open>percent\<close> at 1.5. With a declared length of 0 there is no chunk, and the
  call resolves with \<^verbatim>\<open>percent\<close> and \<^verbatim>\<open>knowsPercent\<close> as the caller had set them.
\<close>

theorem percent_progress_counterexample:
  "downloadMedia (mime_extension sample_extensions) (png_response (Some 4)) None ''/tmp/pic''
     fresh_progress Map.empty [Data ''abcdef'', WriterClose] =
     (Some (Resolved ''png''), \<lparr>shouldStop = False, knowsPercent = True, percent = Num (3 / 2)\<rparr>,
      [''/tmp/pic.png'' \<mapsto> ''abcdef'']) \<and>
   Num (3 / 2) \<noteq> Num 1 \<and>
   downloadMedia (mime_extension sample_extensions) (png_response (Some 0)) None ''/tmp/pic''
     fresh_progress Map.empty [WriterClose] =
     (Some (Resolved ''png''), \<lparr>shouldStop = False, knowsPercent = False, percent = Num 0\<rparr>,
      [''/tmp/pic.png'' \<mapsto> []]) \<and>
   Num 0 \<noteq> Num 1"
proof -
  have r2: "round2 (3 / 2) = 3 / 2" "double_of (3 / 2) = 3 / 2" by code_simp+
  have c: "getMediaMimeExtension (mime_extension sample_extensions) (Some ''image/png'') =
      Some ''png''"
    by code_simp
  have "downloadMedia (mime_extension sample_extensions) (png_response (Some 4)) None
      ''/tmp/pic'' fresh_progress Map.empty [Data ''abcdef'', WriterClose] =
    (promise (run sample_transfer [Data ''abcdef'', WriterClose]),
     prog (run sample_transfer [Data ''abcdef'', WriterClose]),
     disk (run sample_transfer [Data ''abcdef'', WriterClose]))"
    by (simp add: downloadMedia_def sample_start del: run.simps)
  then have a: "downloadMedia (mime_extension sample_extensions) (png_response (Some 4)) None
     ''/tmp/pic'' fresh_progress Map.empty [Data ''abcdef'', WriterClose] =
     (Some (Resolved ''png''), \<lparr>shouldStop = False, knowsPercent = True, percent = Num (3 / 2)\<rparr>,
      [''/tmp/pic.png'' \<mapsto> ''abcdef''])"
    by (simp add: sample_transfer_def handler_defs fresh_progress_def js_div_def r2)
  have b: "downloadMedia (mime_extension sample_extensions) (png_response (Some 0)) None
     ''/tmp/pic'' fresh_progress Map.empty [WriterClose] =
     (Some (Resolved ''png''), \<lparr>shouldStop = False, knowsPercent = False, percent = Num 0\<rparr>,
      [''/tmp/pic.png'' \<mapsto> []])"
    by (simp add: downloadMedia_def downloadMedia_start_def png_response_def c handler_defs
        fresh_progress_def)
  from a b show ?thesis by simp
qed

text \<open>
  C1. When a chunk arrives while \<^verbatim>\<open>prog.shouldStop\<close> is up and the promise is pending, the
  listener of line 78 does what the claim says: it leaves the progress object and the byte
  count alone and calls \<^verbatim>\<open>writer.close()\<close> and \<^verbatim>\<open>cancel()\<close>, and no chunk reaches the
  file any more. But the pipe of line 92 still hands this chunk to the writer just closed,
  the writer raises its write-after-end error, and the listener of line 99 rejects the
  promise with it, whatever happens afterwards: the \<^verbatim>\<open>GracefulStopError\<close> of lines 95 and
  96 comes too late.
\<close>

theorem cancel_on_stop:
  "shouldStop (prog s) \<Longrightarrow> promise s = None \<Longrightarrow>
     prog (step (Data chunk) s) = prog s \<and>
     downloaded (step (Data chunk) s) = downloaded s \<and>
     \<not> writer_open (step (Data chunk) s) \<and>
     close_calls (step (Data chunk) s) = close_calls s + 1 \<and>
     cancel_calls (step (Data chunk) s) = cancel_calls s + 1 \<and>
     (\<forall>es. disk (run (step (Data chunk) s) es) = disk s) \<and>
     (\<forall>es. promise (run (step (Data chunk) s) es) = Some (Rejected WriteAfterEnd))"
proof -
  assume stop: "shouldStop (prog s)" and pending: "promise s = None"
  let ?s = "step (Data chunk) s"
  have a: "prog ?s = prog s" "downloaded ?s = downloaded s" "\<not> writer_open ?s"
    "close_calls ?s = close_calls s + 1" "cancel_calls ?s = cancel_calls s + 1"
    "disk ?s = disk s" "promise ?s = Some (Rejected WriteAfterEnd)"
    using stop pending by (simp_all add: handler_defs)
  have b: "\<forall>es. disk (run ?s es) = disk s"
    using run_closed [OF a(3)] a(6) by simp
  have c: "\<forall>es. promise (run ?s es) = Some (Rejected WriteAfterEnd)"
    using run_promise_settled [OF a(7)] by simp
  from a b c show ?thesis by simp
qed

theorem cancel_on_stop_witness:
  "shouldStop (prog (run sample_transfer [Data ''ab'', StopRequested])) \<and>
   promise (run sample_transfer [Data ''ab'', StopRequested]) = None \<and>
   prog (run sample_transfer [Data ''ab'', StopRequested, Data ''cd'']) =
     \<lparr>shouldStop = True, knowsPercent = True, percent = Num (1 / 2)\<rparr> \<and>
   close_calls (run sample_transfer [Data ''ab'', StopRequested, Data ''cd'']) = 1 \<and>
   cancel_calls (run sample_transfer [Data ''ab'', StopRequested, Data ''cd'']) = 1 \<and>
   disk (run sample_transfer [Data ''ab'', StopRequested, Data ''cd'', WriterClose])
     ''/tmp/pic.png'' = Some ''ab'' \<and>
   fst (downloadMedia (mime_extension sample_extensions) (png_response (Some 4)) None ''/tmp/pic''
      fresh_progress Map.empty [Data ''ab'', StopRequested, Data ''cd'', WriterClose]) =
     Some (Rejected WriteAfterEnd)"
proof -
  let ?s = "run sample_transfer [Data ''ab'', StopRequested]"
  have r2: "round2 (1 / 2) = 1 / 2" "double_of (1 / 2) = 1 / 2"
    by code_simp+
  have s: "?s = \<lparr>prog = \<lparr>shouldStop = True, knowsPercent = True, percent = Num (1 / 2)\<rparr>,
      disk = [''/tmp/pic.png'' \<mapsto> ''ab''], ext = ''png'', totalLength = Some 4,
      writer_path = ''/tmp/pic.png'', downloaded = 2, writer_open = True, close_calls = 0,
      cancel_calls = 0, promise = None\<rparr>"
    by (simp add: sample_transfer_def handler_defs fresh_progress_def js_div_def r2)
  have h1: "shouldStop (prog ?s)" and h2: "promise ?s = None"
    by (simp_all only: s) simp_all
  have d: "downloadMedia (mime_extension sample_extensions) (png_response (Some 4)) None
      ''/tmp/pic'' fresh_progress Map.empty [Data ''ab'', StopRequested, Data ''cd'', WriterClose] =
    (promise (run sample_transfer [Data ''ab'', StopRequested, Data ''cd'', WriterClose]),
     prog (run sample_transfer [Data ''ab'', StopRequested, Data ''cd'', WriterClose]),
     disk (run sample_transfer [Data ''ab'', StopRequested, Data ''cd'', WriterClose]))"
    by (simp add: downloadMedia_def sample_start del: run.simps)
  from cancel_on_stop [OF h1 h2, of "''cd''"] h1 h2 show ?thesis
    unfolding d
    by (simp add: sample_transfer_def handler_defs fresh_progress_def js_div_def r2)
qed

text \<open>
  C9, as amended. When the writer emits \<^verbatim>\<open>close\<close> while \<^verbatim>\<open>prog.shouldStop\<close> is up: a
  promise still pending is rejected with the \<^verbatim>\<open>GracefulStopError\<close>, and a promise
  already rejected keeps its rejection. And once the flag is up, a promise not yet resolved
  is never resolved with the extension, whatever happens. The state may be one in which
  every chunk was written and \<^verbatim>\<open>writer.close()\<close> was never called by the chunk listener.
\<close>

theorem close_while_stopped:
  "shouldStop (prog s) \<Longrightarrow>
     (promise s = None \<longrightarrow>
        promise (step WriterClose s) =
          Some (Rejected (GracefulStopError ''Interrupted http download.''))) \<and>
     (\<forall>r. promise s = Some (Rejected r) \<longrightarrow> promise (step WriterClose s) = Some (Rejected r)) \<and>
     (\<forall>x es. promise s \<noteq> Some (Resolved x) \<longrightarrow> promise (run s es) \<noteq> Some (Resolved x))"
proof -
  assume stop: "shouldStop (prog s)"
  have a: "promise s = None \<longrightarrow>
        promise (step WriterClose s) =
          Some (Rejected (GracefulStopError ''Interrupted http download.''))"
    using stop by (simp add: handler_defs)
  have b: "\<forall>r. promise s = Some (Rejected r) \<longrightarrow>
      promise (step WriterClose s) = Some (Rejected r)"
  proof (intro allI impI)
    fix r assume "promise s = Some (Rejected r)"
    then show "promise (step WriterClose s) = Some (Rejected r)"
      by (rule step_promise_settled)
  qed
  have c: "\<forall>x es. promise s \<noteq> Some (Resolved x) \<longrightarrow>
      promise (run s es) \<noteq> Some (Resolved x)"
    using run_stop_not_resolved [OF stop] by blast
  show ?thesis by (intro conjI a b c)
qed

theorem close_while_stopped_witness:
  "shouldStop (prog (run sample_transfer [Data ''ab'', Data ''cd'', StopRequested])) \<and>
   promise (run sample_transfer [Data ''ab'', Data ''cd'', StopRequested]) = None \<and>
   disk (run sample_transfer [Data ''ab'', Data ''cd'', StopRequested]) ''/tmp/pic.png'' =
     Some ''abcd'' \<and>
   close_calls (run sample_transfer [Data ''ab'', Data ''cd'', StopRequested]) = 0 \<and>
   promise (run sample_transfer [Data ''ab'', Data ''cd'', StopRequested, WriterClose]) =
     Some (Rejected (GracefulStopError ''Interrupted http download.''))"
proof -
  let ?s = "run sample_transfer [Data ''ab'', Data ''cd'', StopRequested]"
  have r2: "round2 (1 / 2) = 1 / 2" "round2 1 = 1" "double_of (1 / 2) = 1 / 2" "double_of 1 = 1"
    by code_simp+
  have s: "?s = \<lparr>prog = \<lparr>shouldStop = True, knowsPercent = True, percent = Num 1\<rparr>,
      disk = [''/tmp/pic.png'' \<mapsto> ''abcd''], ext = ''png'', totalLength = Some 4,
      writer_path = ''/tmp/pic.png'', downloaded = 4, writer_open = True, close_calls = 0,
      cancel_calls = 0, promise = None\<rparr>"
    by (simp add: sample_transfer_def handler_defs fresh_progress_def js_div_def r2)
  have h1: "shouldStop (prog ?s)" and h2: "promise ?s = None"
    by (simp_all only: s) simp_all
  from close_while_stopped [OF h1, THEN conjunct1] h1 h2 show ?thesis
    by (simp add: sample_transfer_def handler_defs fresh_progress_def js_div_def r2)
qed

text \<open>
  C9 as stated fails: the call is not always rejected with the \<^verbatim>\<open>GracefulStopError\<close> when
  the flag is up at the writer's \<^verbatim>\<open>close\<close>. The flag is raised after the first chunk; the
  write of that chunk fails and the writer emits \<^verbatim>\<open>error\<close>, then \<^verbatim>\<open>close\<close>: the call is
  rejected with the writer's error. Likewise a chunk that arrives with the flag up is
  written to the writer just closed, and the call is rejected with that error.
\<close>

theorem close_while_stopped_counterexample:
  "shouldStop (prog (run sample_transfer [Data ''ab'', StopRequested, WriterError 5])) \<and>
   fst (downloadMedia (mime_extension sample_extensions) (png_response (Some 4)) None ''/tmp/pic''
      fresh_progress Map.empty [Data ''ab'', StopRequested, WriterError 5, WriterClose]) =
     Some (Rejected (Cause 5)) \<and>
   Rejected (Cause 5) \<noteq>
     (Rejected (GracefulStopError ''Interrupted http download.'') :: nat settled) \<and>
   shouldStop (prog (run sample_transfer [Data ''ab'', StopRequested, Data ''cd''])) \<and>
   fst (downloadMedia (mime_extension sample_extensions) (png_response (Some 4)) None ''/tmp/pic''
      fresh_progress Map.empty [Data ''ab'', StopRequested, Data ''cd'', WriterClose]) =
     Some (Rejected WriteAfterEnd)"
proof -
  have d: "downloadMedia (mime_extension sample_extensions) (png_response (Some 4)) None
      ''/tmp/pic'' fresh_progress Map.empty es =
    (promise (run sample_transfer es), prog (run sample_transfer es),
     disk (run sample_transfer es))" for es
    by (simp add: downloadMedia_def sample_start del: run.simps)
  show ?thesis
    unfolding d
    by (simp add: sample_transfer_def handler_defs fresh_progress_def)
qed

text \<open>
  C8, as amended. After a progress update with a declared content length \<open>n > 0\<close> (\<open>n\<close>
  and the bytes so far below \<open>2 ^ 53\<close>, so that the code's numbers hold them exactly),
  \<^verbatim>\<open>percent\<close> is the bytes so far over \<open>n\<close>, divided as doubles, rounded to two decimals
  and not clamped: it lies between 0 and 1 when the bytes so far do not exceed \<open>n\<close>, and it
  lies above 1 once they reach 101/100 of \<open>n\<close>.
\<close>

theorem percent_not_clamped:
  "totalLength s = Some n \<Longrightarrow> 0 < n \<Longrightarrow> n < 2 ^ 53 \<Longrightarrow>
   downloaded s + length chunk < 2 ^ 53 \<Longrightarrow> \<not> shouldStop (prog s) \<Longrightarrow>
     percent (prog (step (Data chunk) s)) =
       Num (double_of (round2 (double_of (of_nat (downloaded s + length chunk) / of_nat n)))) \<and>
     (downloaded s + length chunk \<le> n \<longrightarrow>
        in_unit_interval (percent (prog (step (Data chunk) s)))) \<and>
     (101 * n \<le> 100 * (downloaded s + length chunk) \<longrightarrow>
        \<not> in_unit_interval (percent (prog (step (Data chunk) s))))"
proof -
  assume len: "totalLength s = Some n" and n: "0 < n" and go: "\<not> shouldStop (prog s)"
    and exact: "n < 2 ^ 53" "downloaded s + length chunk < 2 ^ 53"
  let ?d = "downloaded s + length chunk"
  let ?q = "(of_nat ?d / of_nat n) :: rat"
  have "percent (prog (step (Data chunk) s)) = toFixed2 (js_div ?d n)"
    using go len by (simp add: handler_defs split: option.splits)
  with n have p: "percent (prog (step (Data chunk) s)) = Num (double_of (round2 (double_of ?q)))"
    by (simp only: toFixed2_js_div)
  have q0: "0 \<le> ?q" by simp
  have a: "in_unit_interval (Num (double_of (round2 (double_of ?q))))" if "?d \<le> n"
  proof -
    from that n have "?q \<le> 1" by (simp add: divide_le_eq)
    from percent_value_unit [OF q0 this] show ?thesis by simp
  qed
  have b: "\<not> in_unit_interval (Num (double_of (round2 (double_of ?q))))"
    if "101 * n \<le> 100 * ?d"
  proof -
    from that have "(of_nat (101 * n) :: rat) \<le> of_nat (100 * ?d)"
      by (simp only: of_nat_le_iff)
    with n have "101 / 100 \<le> ?q" by (simp add: divide_le_eq le_divide_eq field_simps)
    then have "1 < double_of (round2 (double_of ?q))" by (rule percent_value_above_1)
    then show ?thesis by simp
  qed
  show ?thesis unfolding p using a b by blast
qed

theorem percent_not_clamped_witness:
  "totalLength sample_transfer = Some 4 \<and> \<not> shouldStop (prog sample_transfer) \<and>
   percent (prog (step (Data ''abc'') sample_transfer)) = Num (3 / 4) \<and>
   in_unit_interval (percent (prog (step (Data ''abc'') sample_transfer))) \<and>
   \<not> in_unit_interval (percent (prog (step (Data ''abcdef'') sample_transfer)))"
proof -
  have h1: "totalLength sample_transfer = Some 4"
    and h3: "\<not> shouldStop (prog sample_transfer)"
    by (simp_all add: sample_transfer_def fresh_progress_def)
  have h2: "0 < (4::nat)" by simp
  have h4: "(4::nat) < 2 ^ 53" by simp
  have h5: "downloaded sample_transfer + length ''abc'' < 2 ^ 53"
    and h6: "downloaded sample_transfer + length ''abcdef'' < 2 ^ 53"
    by (simp_all add: sample_transfer_def)
  have r2: "round2 (3 / 4) = 3 / 4" "round2 (3 / 2) = 3 / 2"
    "double_of (3 / 4) = 3 / 4" "double_of (3 / 2) = 3 / 2" by code_simp+
  from percent_not_clamped [OF h1 h2 h4 h5 h3] percent_not_clamped [OF h1 h2 h4 h6 h3] h1 h3
  show ?thesis
    by (simp add: sample_transfer_def handler_defs fresh_progress_def js_div_def r2)
qed

text \<open>
  C8 as stated fails: with a declared length of 4 and a chunk of 6 bytes, \<^verbatim>\<open>percent\<close> is
  1.5.
\<close>

theorem percent_not_clamped_counterexample:
  "percent (fst (snd (downloadMedia (mime_extension sample_extensions) (png_response (Some 4)) None
      ''/tmp/pic'' fresh_progress Map.empty [Data ''abcdef'']))) = Num (3 / 2) \<and>
   \<not> in_unit_interval (Num (3 / 2))"
proof -
  have r2: "round2 (3 / 2) = 3 / 2" "double_of (3 / 2) = 3 / 2" by code_simp+
  have "downloadMedia (mime_extension sample_extensions) (png_response (Some 4)) None
      ''/tmp/pic'' fresh_progress Map.empty [Data ''abcdef''] =
    (promise (run sample_transfer [Data ''abcdef'']), prog (run sample_transfer [Data ''abcdef'']),
     disk (run sample_transfer [Data ''abcdef'']))"
    by (simp add: downloadMedia_def sample_start del: run.simps)
  then show ?thesis
    by (simp add: sample_transfer_def handler_defs fresh_progress_def js_div_def r2)
qed

end
